theory Spec2Isabelle
  imports Complex_Main "HOL-Library.Word"
begin

section \<open>Squeak: trajectory normalisation and geometric deviation\<close>

text \<open>
  A shallow embedding of the numeric core of \<^verbatim>\<open>squeak/main.py\<close>. Python lists and
  one-dimensional numpy arrays are HOL lists. The values of floating-point numbers are
  idealised as \<^typ>\<open>real\<close>: there is no NaN and no infinity, and "equal within
  floating tolerance" reads as equality. The number of elements of a result is not
  idealised: where a floating-point quotient decides a count (the length of
  \<^verbatim>\<open>np.arange\<close>, the step it is given, the required length of \<open>uniform_time\<close>),
  the division is a parameter \<open>fdiv\<close> of the model, and statements about it hold for
  every division that is accurate to the relative error of a double. Every exception the
  Python raises is a value \<open>Inl e\<close> of the result type.
\<close>

subsection \<open>Errors and indexing\<close>

datatype error = IndexError | ValueError | ZeroDivisionError | AttributeError

text \<open>\<^verbatim>\<open>a[0]\<close> and \<^verbatim>\<open>a[-1]\<close>: both raise IndexError on an empty sequence.\<close>

definition first_elem :: "'a list \<Rightarrow> error + 'a" where
  "first_elem xs = (case xs of [] \<Rightarrow> Inl IndexError | x # _ \<Rightarrow> Inr x)"

definition last_elem :: "'a list \<Rightarrow> error + 'a" where
  "last_elem xs = (case xs of [] \<Rightarrow> Inl IndexError | _ # _ \<Rightarrow> Inr (last xs))"

text \<open>\<^verbatim>\<open>a[i]\<close> for an index \<open>i \<ge> 0\<close>.\<close>

definition index :: "'a list \<Rightarrow> nat \<Rightarrow> error + 'a" where
  "index xs i = (if i < length xs then Inr (xs ! i) else Inl IndexError)"

subsection \<open>Sequences\<close>



subsection \<open>Event locator\<close>

text \<open>
  \<^verbatim>\<open>np.argmax\<close> of a one-dimensional array: the index of the first occurrence of the
  maximum; ValueError on an empty array. The loop carries the running index, the best
  value so far and its index, and replaces the best only on a strictly greater value.
\<close>

fun argmax_loop :: "'a::linorder list \<Rightarrow> nat \<Rightarrow> 'a \<Rightarrow> nat \<Rightarrow> nat" where
  "argmax_loop [] i bv bi = bi"
| "argmax_loop (v # vs) i bv bi =
     (if bv < v then argmax_loop vs (Suc i) v i else argmax_loop vs (Suc i) bv bi)"

definition argmax :: "'a::linorder list \<Rightarrow> error + nat" where
  "argmax vs = (case vs of [] \<Rightarrow> Inl ValueError | v # rest \<Rightarrow> Inr (argmax_loop rest 1 v 0))"

text \<open>
  \<^verbatim>\<open>
  def get_init_step(y, y_threshold = .01, ascending = True):
      if ascending:
          started = np.array(y) > y_threshold
      else:
          started = np.array(y) < y_threshold
      step = np.argmax(started)
      return step
  \<close>
\<close>

definition get_init_step :: "real list \<Rightarrow> real \<Rightarrow> bool \<Rightarrow> error + nat" where
  "get_init_step y y_threshold ascending =
     (let started = (if ascending then map (\<lambda>v. v > y_threshold) y
                     else map (\<lambda>v. v < y_threshold) y)
      in argmax started)"

text \<open>
  \<^verbatim>\<open>
  def get_init_time(t, y, y_threshold=.01, ascending = True):
      init_step = get_init_step(y, y_threshold, ascending)
      return t[init_step]
  \<close>
\<close>

definition get_init_time :: "real list \<Rightarrow> real list \<Rightarrow> real \<Rightarrow> bool \<Rightarrow> error + real" where
  "get_init_time t y y_threshold ascending =
     (case get_init_step y y_threshold ascending of
        Inl e \<Rightarrow> Inl e
      | Inr init_step \<Rightarrow> index t init_step)"

text \<open>The condition that \<^const>\<open>get_init_step\<close> tests at one sample.\<close>

definition crossed :: "real \<Rightarrow> bool \<Rightarrow> real \<Rightarrow> bool" where
  "crossed y_threshold ascending v = (if ascending then v > y_threshold else v < y_threshold)"

subsection \<open>Library functions the code calls\<close>

text \<open>
  The builtins \<^verbatim>\<open>min\<close> and \<^verbatim>\<open>max\<close> on a sequence: ValueError when it is empty,
  otherwise one pass that keeps the first extreme element.
\<close>

definition py_min :: "'a::linorder list \<Rightarrow> error + 'a" where
  "py_min xs = (case xs of [] \<Rightarrow> Inl ValueError
                | x # rest \<Rightarrow> Inr (fold (\<lambda>v m. if v < m then v else m) rest x))"

definition py_max :: "'a::linorder list \<Rightarrow> error + 'a" where
  "py_max xs = (case xs of [] \<Rightarrow> Inl ValueError
                | x # rest \<Rightarrow> Inr (fold (\<lambda>v m. if m < v then v else m) rest x))"

text \<open>\<^verbatim>\<open>int(r)\<close> on a float truncates towards zero.\<close>

definition py_int :: "real \<Rightarrow> int" where
  "py_int r = (if 0 \<le> r then \<lfloor>r\<rfloor> else \<lceil>r\<rceil>)"

text \<open>
  Division of doubles, as far as the model relies on it: the result is within the
  relative error \<open>1 / 2 ^ 53\<close> of the exact quotient (round to nearest, short of
  overflow and underflow). Exact division is one such operation.
\<close>

definition rounded_division :: "(real \<Rightarrow> real \<Rightarrow> real) \<Rightarrow> bool" where
  "rounded_division fdiv \<longleftrightarrow> (\<forall>a b. b \<noteq> 0 \<longrightarrow> \<bar>fdiv a b - a / b\<bar> \<le> \<bar>a / b\<bar> / 2 ^ 53)"

text \<open>
  \<^verbatim>\<open>np.arange(start, stop, step)\<close>: numpy divides \<open>stop - start\<close> by \<open>step\<close> as
  Python numbers (ZeroDivisionError on a zero step), takes the ceiling of that
  floating-point quotient as the length, none when it is not positive, and fills in
  \<open>start + i * step\<close>.
\<close>

definition arange :: "(real \<Rightarrow> real \<Rightarrow> real) \<Rightarrow> real \<Rightarrow> real \<Rightarrow> real \<Rightarrow> error + real list" where
  "arange fdiv start stop step =
     (if step = 0 then Inl ZeroDivisionError
      else Inr (map (\<lambda>i. start + real i * step) [0..<nat \<lceil>fdiv (stop - start) step\<rceil>]))"

text \<open>
  \<^verbatim>\<open>np.interp(x, xp, fp)\<close> (\<^verbatim>\<open>scipy.interp\<close> is the same function). For each
  \<open>x\<close> numpy looks up the interval of \<open>xp\<close> that holds it:
  \<^verbatim>\<open>
  if (key > arr[len - 1]) return len;
  else if (key < arr[0]) return -1;
  for (i = 1; i < len && key >= arr[i]; ++i);
  return i - 1;
  \<close>
  and interpolates in it:
  \<^verbatim>\<open>
  if (j == -1) res = fp[0];
  else if (j == lenxp) res = fp[lenxp - 1];
  else if (j == lenxp - 1) res = fp[j];
  else if (xp[j] == x) res = fp[j];
  else { slope = (fp[j+1] - fp[j]) / (xp[j+1] - xp[j]); res = slope*(x - xp[j]) + fp[j]; }
  \<close>
  numpy scans linearly as above up to four sample points and bisects beyond; both find
  the same interval whenever \<open>xp\<close> is non-decreasing. An empty \<open>xp\<close> and an \<open>fp\<close> of
  another length are ValueErrors.
\<close>

fun linear_search :: "real \<Rightarrow> real list \<Rightarrow> nat \<Rightarrow> nat" where
  "linear_search key [] i = i"
| "linear_search key (a # arr) i = (if key \<ge> a then linear_search key arr (Suc i) else i)"

definition binary_search_with_guess :: "real \<Rightarrow> real list \<Rightarrow> int" where
  "binary_search_with_guess key arr =
     (if key > last arr then int (length arr)
      else if key < hd arr then - 1
      else int (linear_search key (tl arr) 1) - 1)"

definition interp_at :: "real list \<Rightarrow> real list \<Rightarrow> real \<Rightarrow> real" where
  "interp_at xp fp x_val =
     (let j = binary_search_with_guess x_val xp; lenxp = int (length xp) in
      if j = - 1 then hd fp
      else if j = lenxp then last fp
      else if j = lenxp - 1 then fp ! nat j
      else if xp ! nat j = x_val then fp ! nat j
      else (let slope = (fp ! (nat j + 1) - fp ! nat j) / (xp ! (nat j + 1) - xp ! nat j)
            in slope * (x_val - xp ! nat j) + fp ! nat j))"

definition interp :: "real list \<Rightarrow> real list \<Rightarrow> real list \<Rightarrow> error + real list" where
  "interp x xp fp =
     (if xp = [] then Inl ValueError
      else if length fp \<noteq> length xp then Inl ValueError
      else Inr (map (interp_at xp fp) x))"

subsection \<open>Resampler\<close>

text \<open>
  \<^verbatim>\<open>
  def even_time_steps(x, y, t, length = 101):
      nt = np.arange(min(t), max(t), (float(max(t)-min(t))/length))
      nx = interp(nt, t, x)
      ny = interp(nt, t, y)
      return nx, ny, nt
  \<close>
  \<open>length\<close> is a Python int; dividing the float by 0 raises ZeroDivisionError.
\<close>

definition even_time_steps ::
  "(real \<Rightarrow> real \<Rightarrow> real) \<Rightarrow> real list \<Rightarrow> real list \<Rightarrow> real list \<Rightarrow> int
     \<Rightarrow> error + (real list \<times> real list \<times> real list)" where
  "even_time_steps fdiv x y t len =
     (case py_min t of Inl e \<Rightarrow> Inl e | Inr min_t \<Rightarrow>
      case py_max t of Inl e \<Rightarrow> Inl e | Inr max_t \<Rightarrow>
      if len = 0 then Inl ZeroDivisionError else
      case arange fdiv min_t max_t (fdiv (max_t - min_t) (real_of_int len)) of
        Inl e \<Rightarrow> Inl e | Inr nt \<Rightarrow>
      case interp nt t x of Inl e \<Rightarrow> Inl e | Inr nx \<Rightarrow>
      case interp nt t y of Inl e \<Rightarrow> Inl e | Inr ny \<Rightarrow>
      Inr (nx, ny, nt))"

text \<open>
  \<^verbatim>\<open>
  def uniform_time(coordinates, timepoints, desired_interval=10, max_duration=3000):
      regular_timepoints = np.arange(0, timepoints[-1]+1, desired_interval)
      regular_coordinates = interp(regular_timepoints, timepoints, coordinates)
      required_length = int(max_duration / desired_interval)
      extra_values = np.array([regular_coordinates[-1]] * (required_length - len(regular_coordinates)))
      return np.concatenate([regular_coordinates, extra_values])
  \<close>
  A list times a count that is not positive is the empty list, which is
  \<open>replicate (nat n)\<close>.
\<close>

definition uniform_time ::
  "(real \<Rightarrow> real \<Rightarrow> real) \<Rightarrow> real list \<Rightarrow> real list \<Rightarrow> real \<Rightarrow> real \<Rightarrow> error + real list" where
  "uniform_time fdiv coordinates timepoints desired_interval max_duration =
     (case last_elem timepoints of Inl e \<Rightarrow> Inl e | Inr t_last \<Rightarrow>
      case arange fdiv 0 (t_last + 1) desired_interval of
        Inl e \<Rightarrow> Inl e | Inr regular_timepoints \<Rightarrow>
      case interp regular_timepoints timepoints coordinates of Inl e \<Rightarrow> Inl e
      | Inr regular_coordinates \<Rightarrow>
      let required_length = py_int (fdiv max_duration desired_interval) in
      case last_elem regular_coordinates of Inl e \<Rightarrow> Inl e | Inr final \<Rightarrow>
      let extra_values =
            replicate (nat (required_length - int (length regular_coordinates))) final
      in Inr (regular_coordinates @ extra_values))"

subsection \<open>Spatial normaliser\<close>






subsection \<open>Geometric deviation engine\<close>

text \<open>
  \<^verbatim>\<open>
  def rel_distance(x_path, y_path, full_output = False):
      rx1, ry1 = x_path[0], x_path[-1]
      rx2, ry2 = -1* rx1, ry1
      r_d, d_1, d_2 = [], [], []
      for i in range(len(x_path)):
          x = x_path[i]
          y = y_path[i]
          d1 = sqrt( (x-rx1)**2 + (y-ry1)**2 )
          d2 = sqrt( (x-rx2)**2 + (y-ry2)**2 )
          rd = (d1 / (d1 + d2) )
          r_d.append(rd)
      return np.array(r_d)
  \<close>
  with the default \<open>full_output = False\<close>. The loop takes the two reference points as
  arguments; it raises IndexError when \<open>y_path\<close> runs out before \<open>x_path\<close>, and
  \<^verbatim>\<open>math.sqrt\<close> returns Python floats, whose division by zero raises
  ZeroDivisionError.
\<close>

fun rel_distance_loop ::
  "real \<Rightarrow> real \<Rightarrow> real \<Rightarrow> real \<Rightarrow> real list \<Rightarrow> real list \<Rightarrow> error + real list" where
  "rel_distance_loop rx1 ry1 rx2 ry2 [] y_path = Inr []"
| "rel_distance_loop rx1 ry1 rx2 ry2 (x # x_path) [] = Inl IndexError"
| "rel_distance_loop rx1 ry1 rx2 ry2 (x # x_path) (y # y_path) =
     (let d1 = sqrt ((x - rx1)\<^sup>2 + (y - ry1)\<^sup>2);
          d2 = sqrt ((x - rx2)\<^sup>2 + (y - ry2)\<^sup>2)
      in if d1 + d2 = 0 then Inl ZeroDivisionError
         else (case rel_distance_loop rx1 ry1 rx2 ry2 x_path y_path of
                 Inl e \<Rightarrow> Inl e
               | Inr r_d \<Rightarrow> Inr (d1 / (d1 + d2) # r_d)))"

definition rel_distance :: "real list \<Rightarrow> real list \<Rightarrow> error + real list" where
  "rel_distance x_path y_path =
     (case first_elem x_path of Inl e \<Rightarrow> Inl e | Inr rx1 \<Rightarrow>
      case last_elem x_path of Inl e \<Rightarrow> Inl e | Inr ry1 \<Rightarrow>
      let rx2 = - 1 * rx1; ry2 = ry1
      in rel_distance_loop rx1 ry1 rx2 ry2 x_path y_path)"

text \<open>
  \<^verbatim>\<open>
  def rotate(x, y, rad):
      s, c = [f(rad) for f in (math.sin, math.cos)]
      x, y = (c*x - s*y, s*x + c*y)
      return x,y
  \<close>
\<close>

definition rotate :: "real \<Rightarrow> real \<Rightarrow> real \<Rightarrow> real \<times> real" where
  "rotate x y rad = (let s = sin rad; c = cos rad in (c * x - s * y, s * x + c * y))"

text \<open>
  \<^verbatim>\<open>
  def max_deviation(x, y):
      rx, ry = [], []
      radians_to_rotate = math.atan(float(x[len(x)-1])/y[len(y)-1])
      for localx, localy in zip(x, y):
          rot = rotate(localx, localy, radians_to_rotate)
          rx.append(rot[0])
          ry.append(rot[1])
      max_positive = abs(min(rx))
      max_negative = abs(max(rx))
      if max_positive > max_negative:
          return max_positive
      else:
          return -1*max_negative
  \<close>
  On Python numbers a final \<open>y\<close> of zero raises ZeroDivisionError.
\<close>

definition max_deviation :: "real list \<Rightarrow> real list \<Rightarrow> error + real" where
  "max_deviation x y =
     (case last_elem x of Inl e \<Rightarrow> Inl e | Inr x_last \<Rightarrow>
      case last_elem y of Inl e \<Rightarrow> Inl e | Inr y_last \<Rightarrow>
      if y_last = 0 then Inl ZeroDivisionError else
      let radians_to_rotate = arctan (x_last / y_last);
          rot = map (\<lambda>(localx, localy). rotate localx localy radians_to_rotate) (zip x y);
          rx = map fst rot;
          ry = map snd rot
      in case py_min rx of Inl e \<Rightarrow> Inl e | Inr min_rx \<Rightarrow>
         case py_max rx of Inl e \<Rightarrow> Inl e | Inr max_rx \<Rightarrow>
         let max_positive = \<bar>min_rx\<bar>; max_negative = \<bar>max_rx\<bar>
         in if max_positive > max_negative then Inr max_positive
            else Inr (- 1 * max_negative))"

text \<open>
  The loop shared by \<open>auc\<close> and \<open>auc2\<close>:
  \<^verbatim>\<open>
  j = len(x) - 1
  for i in range(len(x)):
      x1y2 = y[i]*x[j]
      x2y1 = x[i] * y[j]
      area = x2y1 - x1y2
      areas.append(area)
      j = i
  \<close>
  It reads \<open>y\<close> at every index of \<open>x\<close>, so a shorter \<open>y\<close> is an IndexError; the callers
  check that before running it.
\<close>

fun areas_loop :: "real list \<Rightarrow> real list \<Rightarrow> nat list \<Rightarrow> nat \<Rightarrow> real list" where
  "areas_loop x y [] j = []"
| "areas_loop x y (i # rest) j =
     (let x1y2 = y ! i * x ! j;
          x2y1 = x ! i * y ! j;
          area = x2y1 - x1y2
      in area # areas_loop x y rest i)"

text \<open>
  \<^verbatim>\<open>
  def auc(x, y):
      areas = []
      ... the loop ...
      return float(sum(areas))/2
  \<close>
\<close>

definition auc :: "real list \<Rightarrow> real list \<Rightarrow> error + real" where
  "auc x y =
     (if length y < length x then Inl IndexError
      else Inr (sum_list (areas_loop x y [0..<length x] (length x - 1)) / 2))"

text \<open>
  \<^verbatim>\<open>
  def auc2(x, y):
      areas = []
      x = list(x)
      y = list(y)
      x.append(x[-1])
      y.append(y[0])
      ... the loop ...
      triangle = .5 * abs(x[-1] - x[0]) * abs(y[-1]*y[0])
      return float(sum(areas)) - triangle
  \<close>
  After the two appends \<open>x[-1]\<close> is still the path's last \<open>x\<close> and \<open>y[-1]\<close> is the
  path's first \<open>y\<close>.
\<close>

definition auc2 :: "real list \<Rightarrow> real list \<Rightarrow> error + real" where
  "auc2 x0 y0 =
     (case last_elem x0 of Inl e \<Rightarrow> Inl e | Inr x_last \<Rightarrow>
      case first_elem y0 of Inl e \<Rightarrow> Inl e | Inr y_first \<Rightarrow>
      let x = x0 @ [x_last]; y = y0 @ [y_first] in
      if length y < length x then Inl IndexError
      else (let areas = areas_loop x y [0..<length x] (length x - 1);
                triangle = 0.5 * \<bar>last x - hd x\<bar> * \<bar>last y * hd y\<bar>
            in Inr (sum_list areas - triangle)))"

subsection \<open>Notions used in the statements\<close>

text \<open>
  The interpolated part of \<open>uniform_time\<close>'s result: the number of timestamps
  \<open>0, interval, 2 * interval, ...\<close> that \<open>arange\<close> generates up to
  \<open>timepoints[-1] + 1\<close>, and the coordinates interpolated at them.
\<close>

definition regular_count :: "(real \<Rightarrow> real \<Rightarrow> real) \<Rightarrow> real list \<Rightarrow> real \<Rightarrow> nat" where
  "regular_count fdiv timepoints desired_interval =
     nat \<lceil>fdiv (last timepoints + 1) desired_interval\<rceil>"

definition regular_part ::
  "(real \<Rightarrow> real \<Rightarrow> real) \<Rightarrow> real list \<Rightarrow> real list \<Rightarrow> real \<Rightarrow> real list" where
  "regular_part fdiv coordinates timepoints desired_interval =
     map (interp_at timepoints coordinates)
       (map (\<lambda>i. real i * desired_interval)
          [0..<regular_count fdiv timepoints desired_interval])"

text \<open>
  The ideal line of \<open>max_deviation\<close> runs from the origin to the path's last point.
  \<open>offsets\<close> gives, for every point of the path, its horizontal distance from that
  line: negative to the left of the line, zero on it, positive to the right.
  \<open>mirror_point\<close> reflects a point across the line through the origin and
  \<open>(ex, ey)\<close>, and \<open>mirror_path\<close> reflects a path across its own ideal line.
\<close>

definition offsets :: "real list \<Rightarrow> real list \<Rightarrow> real list" where
  "offsets x y = map (\<lambda>(px, py). px - last x / last y * py) (zip x y)"

definition mirror_point :: "real \<Rightarrow> real \<Rightarrow> real \<times> real \<Rightarrow> real \<times> real" where
  "mirror_point ex ey p =
     (let c = 2 * (fst p * ex + snd p * ey) / (ex\<^sup>2 + ey\<^sup>2)
      in (c * ex - fst p, c * ey - snd p))"

definition mirror_path :: "real list \<Rightarrow> real list \<Rightarrow> (real \<times> real) list" where
  "mirror_path x y = map (mirror_point (last x) (last y)) (zip x y)"

section \<open>Properties of the event locator\<close>

lemma argmax_loop_True:
  "argmax_loop bs i True bi = bi"
  by (induction bs arbitrary: i) simp_all

lemma argmax_loop_False_none:
  "\<forall>b \<in> set bs. \<not> b \<Longrightarrow> argmax_loop bs i False bi = bi"
  by (induction bs arbitrary: i) auto

lemma argmax_loop_False_some:
  "\<exists>b \<in> set bs. b \<Longrightarrow>
   \<exists>k < length bs. argmax_loop bs i False bi = i + k \<and> bs ! k \<and> (\<forall>j < k. \<not> bs ! j)"
proof (induction bs arbitrary: i)
  case Nil
  then show ?case by simp
next
  case (Cons b bs)
  show ?case
  proof (cases b)
    case True
    then have "argmax_loop (b # bs) i False bi = i + 0 \<and> (b # bs) ! 0 \<and> (\<forall>j < 0. \<not> (b # bs) ! j)"
      by (simp add: argmax_loop_True)
    then show ?thesis by blast
  next
    case False
    with Cons.prems have "\<exists>b \<in> set bs. b" by auto
    from Cons.IH [OF this, of "Suc i"] obtain k where k: "k < length bs"
      "argmax_loop bs (Suc i) False bi = Suc i + k" "bs ! k" "\<forall>j < k. \<not> bs ! j"
      by blast
    have "\<forall>j < Suc k. \<not> (b # bs) ! j"
      using False k(4) by (auto simp: less_Suc_eq_0_disj)
    with k False have "Suc k < length (b # bs) \<and> argmax_loop (b # bs) i False bi = i + Suc k
        \<and> (b # bs) ! Suc k \<and> (\<forall>j < Suc k. \<not> (b # bs) ! j)"
      by simp
    then show ?thesis by blast
  qed
qed

text \<open>
  On a Boolean array the first maximum is the first \<open>True\<close>, and index 0 when there is
  none.
\<close>

lemma argmax_bool_some:
  assumes "\<exists>b \<in> set bs. b"
  shows "\<exists>k < length bs. argmax bs = Inr k \<and> bs ! k \<and> (\<forall>j < k. \<not> bs ! j)"
proof (cases bs)
  case Nil
  with assms show ?thesis by simp
next
  case (Cons b rest)
  show ?thesis
  proof (cases b)
    case True
    with Cons have "0 < length bs \<and> argmax bs = Inr 0 \<and> bs ! 0 \<and> (\<forall>j < 0. \<not> bs ! j)"
      by (simp add: argmax_def argmax_loop_True)
    then show ?thesis by blast
  next
    case False
    with assms Cons have "\<exists>b \<in> set rest. b" by auto
    from argmax_loop_False_some [OF this, of 1 0] obtain k where k: "k < length rest"
      "argmax_loop rest 1 False 0 = 1 + k" "rest ! k" "\<forall>j < k. \<not> rest ! j"
      by blast
    have "\<forall>j < Suc k. \<not> bs ! j"
      using False k(4) Cons by (auto simp: less_Suc_eq_0_disj)
    with k False Cons have "Suc k < length bs \<and> argmax bs = Inr (Suc k) \<and> bs ! Suc k
        \<and> (\<forall>j < Suc k. \<not> bs ! j)"
      by (simp add: argmax_def)
    then show ?thesis by blast
  qed
qed

lemma argmax_bool_none:
  assumes "bs \<noteq> []" and "\<forall>b \<in> set bs. \<not> b"
  shows "argmax bs = Inr 0"
  using assms by (cases bs) (auto simp: argmax_def argmax_loop_False_none)

lemma started_eq:
  "(if ascending then map (\<lambda>v. v > th) y else map (\<lambda>v. v < th) y) = map (crossed th ascending) y"
  by (simp add: crossed_def)

lemma get_init_step_crossed:
  "get_init_step y th ascending = argmax (map (crossed th ascending) y)"
  unfolding get_init_step_def Let_def started_eq ..

lemma get_init_step_some:
  assumes "i < length y" and "crossed th ascending (y ! i)"
  shows "\<exists>k < length y. get_init_step y th ascending = Inr k \<and> crossed th ascending (y ! k)
           \<and> (\<forall>j < k. \<not> crossed th ascending (y ! j))"
proof -
  have "\<exists>b \<in> set (map (crossed th ascending) y). b"
    using assms by (auto simp: in_set_conv_nth intro!: bexI [of _ "y ! i"] exI [of _ i])
  from argmax_bool_some [OF this] obtain k where k: "k < length y"
    "argmax (map (crossed th ascending) y) = Inr k" "map (crossed th ascending) y ! k"
    "\<forall>j < k. \<not> map (crossed th ascending) y ! j"
    by auto
  from k(1,3) have "crossed th ascending (y ! k)" by simp
  moreover from k(1,4) have "\<forall>j < k. \<not> crossed th ascending (y ! j)" by simp
  ultimately show ?thesis using k(1,2) by (auto simp: get_init_step_crossed)
qed

lemma get_init_step_none:
  assumes "y \<noteq> []" and "\<forall>i < length y. \<not> crossed th ascending (y ! i)"
  shows "get_init_step y th ascending = Inr 0"
proof -
  have "\<forall>b \<in> set (map (crossed th ascending) y). \<not> b"
    using assms(2) by (auto simp: in_set_conv_nth)
  with assms(1) show ?thesis
    by (simp add: get_init_step_crossed argmax_bool_none)
qed

lemma get_init_step_bound:
  assumes "y \<noteq> []"
  shows "\<exists>k < length y. get_init_step y th ascending = Inr k"
proof (cases "\<exists>i < length y. crossed th ascending (y ! i)")
  case True
  then obtain i where "i < length y" "crossed th ascending (y ! i)" by blast
  from get_init_step_some [OF this] show ?thesis by blast
next
  case False
  then have "get_init_step y th ascending = Inr 0"
    using assms by (intro get_init_step_none) auto
  with assms show ?thesis by auto
qed

text \<open>
  C8. For a non-empty \<open>y\<close>, \<open>get_init_step\<close> returns the index of the first element
  beyond the threshold (above it when ascending, below it otherwise), and index 0 when
  no element is beyond it; on \<open>[0, 0, 0.02, 0.5]\<close> with threshold 0.01, ascending, it
  returns 2.
\<close>

theorem get_init_step_first_crossing:
  "y \<noteq> [] \<Longrightarrow>
     ((\<exists>i < length y. crossed th ascending (y ! i)) \<longrightarrow>
        (\<exists>k < length y. get_init_step y th ascending = Inr k
           \<and> crossed th ascending (y ! k) \<and> (\<forall>j < k. \<not> crossed th ascending (y ! j))))
   \<and> ((\<forall>i < length y. \<not> crossed th ascending (y ! i)) \<longrightarrow>
        get_init_step y th ascending = Inr 0)
   \<and> get_init_step [0, 0, 0.02, 0.5] 0.01 True = Inr 2"
proof (intro conjI impI)
  assume "\<exists>i < length y. crossed th ascending (y ! i)"
  then obtain i where "i < length y" "crossed th ascending (y ! i)" by blast
  from get_init_step_some [OF this]
  show "\<exists>k < length y. get_init_step y th ascending = Inr k
           \<and> crossed th ascending (y ! k) \<and> (\<forall>j < k. \<not> crossed th ascending (y ! j))" .
next
  assume "y \<noteq> []" and "\<forall>i < length y. \<not> crossed th ascending (y ! i)"
  then show "get_init_step y th ascending = Inr 0" by (rule get_init_step_none)
next
  show "get_init_step [0, 0, 0.02, 0.5] 0.01 True = Inr 2"
    by (simp add: get_init_step_def argmax_def)
qed

theorem get_init_step_first_crossing_witness:
  "(\<exists>k < length [0, 0, 0.02, 0.5 :: real]. get_init_step [0, 0, 0.02, 0.5] 0.01 True = Inr k
      \<and> crossed 0.01 True ([0, 0, 0.02, 0.5] ! k)
      \<and> (\<forall>j < k. \<not> crossed 0.01 True ([0, 0, 0.02, 0.5] ! j)))
   \<and> get_init_step [0, 0] 0.01 True = Inr 0"
proof -
  have ne1: "[0, 0, 0.02, 0.5 :: real] \<noteq> []" and ne2: "[0, 0 :: real] \<noteq> []"
    by simp_all
  have "(3::nat) < length [0, 0, 0.02, 0.5 :: real] \<and> crossed 0.01 True ([0, 0, 0.02, 0.5] ! 3)"
    by (simp add: crossed_def)
  then have some: "\<exists>i < length [0, 0, 0.02, 0.5 :: real]. crossed 0.01 True ([0, 0, 0.02, 0.5] ! i)"
    by blast
  have none: "\<forall>i < length [0, 0 :: real]. \<not> crossed 0.01 True ([0, 0] ! i)"
    by (simp add: crossed_def less_Suc_eq_0_disj)
  show ?thesis
    using get_init_step_first_crossing [OF ne1, of "0.01" True] some
      get_init_step_first_crossing [OF ne2, of "0.01" True] none
    by blast
qed

text \<open>
  C10. For a non-empty \<open>y\<close>, \<open>get_init_step\<close> returns an index below \<open>length y\<close>; so
  for \<open>t\<close> of the same length the read \<open>t[init_step]\<close> in \<open>get_init_time\<close> is in
  bounds and \<open>get_init_time\<close> returns that timestamp instead of failing.
\<close>

theorem get_init_time_in_bounds:
  "y \<noteq> [] \<Longrightarrow> length t = length y \<Longrightarrow>
     \<exists>k < length y. get_init_step y th ascending = Inr k
        \<and> get_init_time t y th ascending = Inr (t ! k)"
proof -
  assume "y \<noteq> []" and len: "length t = length y"
  from get_init_step_bound [OF this(1), of th ascending] obtain k where
    k: "k < length y" "get_init_step y th ascending = Inr k" by blast
  with len have "get_init_time t y th ascending = Inr (t ! k)"
    by (simp add: get_init_time_def index_def)
  with k show ?thesis by blast
qed

theorem get_init_time_in_bounds_witness:
  "[0, 0, 0.02, 0.5 :: real] \<noteq> [] \<and> length [0, 10, 20, 30 :: real] = length [0, 0, 0.02, 0.5 :: real]
   \<and> (\<exists>k < length [0, 0, 0.02, 0.5 :: real]. get_init_step [0, 0, 0.02, 0.5] 0.01 True = Inr k
        \<and> get_init_time [0, 10, 20, 30] [0, 0, 0.02, 0.5] 0.01 True = Inr ([0, 10, 20, 30] ! k))"
proof -
  have ne: "[0, 0, 0.02, 0.5 :: real] \<noteq> []"
    and len: "length [0, 10, 20, 30 :: real] = length [0, 0, 0.02, 0.5 :: real]"
    by simp_all
  from get_init_time_in_bounds [OF ne len, of "0.01" True] ne len
  show ?thesis by blast
qed

section \<open>Properties of the spatial normaliser\<close>









section \<open>Properties of the resampler\<close>

lemma py_min_Min: "xs \<noteq> [] \<Longrightarrow> py_min xs = Inr (Min (set xs))"
proof (cases xs)
  case (Cons x rest)
  have "(\<lambda>v m :: 'a. if v < m then v else m) = min"
    by (auto simp: fun_eq_iff min_def)
  moreover have "Min (set (x # rest)) = fold min rest x"
    by (rule Min.set_eq_fold)
  ultimately show ?thesis
    using Cons by (simp add: py_min_def)
qed simp

lemma py_max_Max: "xs \<noteq> [] \<Longrightarrow> py_max xs = Inr (Max (set xs))"
proof (cases xs)
  case (Cons x rest)
  have "(\<lambda>v m :: 'a. if m < v then v else m) = max"
    by (auto simp: fun_eq_iff max_def)
  moreover have "Max (set (x # rest)) = fold max rest x"
    by (rule Max.set_eq_fold)
  ultimately show ?thesis
    using Cons by (simp add: py_max_def)
qed simp

lemma sorted_Min_hd: "sorted t \<Longrightarrow> t \<noteq> [] \<Longrightarrow> Min (set t) = hd t"
  by (cases t) (auto intro!: Min_eqI)

lemma sorted_Max_last: "sorted t \<Longrightarrow> t \<noteq> [] \<Longrightarrow> Max (set t) = last t"
proof -
  assume s: "sorted t" and ne: "t \<noteq> []"
  have "\<And>v. v \<in> set t \<Longrightarrow> v \<le> last t"
  proof -
    fix v assume "v \<in> set t"
    then obtain i where i: "i < length t" "t ! i = v" by (auto simp: in_set_conv_nth)
    then have "t ! i \<le> t ! (length t - 1)"
      using s by (intro sorted_nth_mono) auto
    with i ne show "v \<le> last t" by (simp add: last_conv_nth)
  qed
  with ne show ?thesis by (intro Max_eqI) auto
qed

lemma linear_search_takeWhile:
  "linear_search key arr i = i + length (takeWhile (\<lambda>a. a \<le> key) arr)"
  by (induction arr arbitrary: i) simp_all

text \<open>
  At the first timestamp of a non-decreasing \<open>t\<close>, \<open>interp\<close> returns the value of the
  last sample that carries this timestamp.
\<close>

lemma interp_at_first:
  assumes "sorted t" and "Suc j < length t" and "t ! j = hd t" and "hd t < t ! Suc j"
  shows "interp_at t x (hd t) = x ! j"
proof -
  have ne: "t \<noteq> []" using assms(2) by auto
  have le: "hd t \<le> last t"
    using assms(1) ne sorted_nth_mono [of t 0 "length t - 1"]
    by (simp add: hd_conv_nth last_conv_nth)
  have "takeWhile (\<lambda>a. a \<le> hd t) (tl t) = take j (tl t)"
  proof (rule takeWhile_eq_take_P_nth)
    fix i assume "i < j" "i < length (tl t)"
    then have "t ! Suc i \<le> t ! j"
      using assms(1,2) by (intro sorted_nth_mono) auto
    then show "tl t ! i \<le> hd t"
      using \<open>i < length (tl t)\<close> assms(3) by (simp add: nth_tl)
  next
    assume "j < length (tl t)"
    then show "\<not> tl t ! j \<le> hd t"
      using assms(4) by (simp add: nth_tl)
  qed
  then have "length (takeWhile (\<lambda>a. a \<le> hd t) (tl t)) = j"
    using assms(2) by simp
  then have j: "binary_search_with_guess (hd t) t = int j"
    using le by (simp add: binary_search_with_guess_def linear_search_takeWhile)
  show ?thesis
    using assms(2,3) by (simp add: interp_at_def j)
qed

text \<open>Exact division is a rounded division; a rounded quotient stays close to the exact one.\<close>

lemma rounded_division_exact: "rounded_division (/)"
  by (simp add: rounded_division_def)

lemma rounded_division_bounds:
  assumes "rounded_division fdiv" and "0 < a" and "0 < b"
  shows "a / b * (1 - 1 / 2 ^ 53) \<le> fdiv a b" and "fdiv a b \<le> a / b * (1 + 1 / 2 ^ 53)"
proof -
  have q: "0 < a / b" using assms(2,3) by simp
  have "b \<noteq> 0" using assms(3) by simp
  with assms(1) have "\<bar>fdiv a b - a / b\<bar> \<le> \<bar>a / b\<bar> / 2 ^ 53"
    unfolding rounded_division_def by blast
  then have "\<bar>fdiv a b - a / b\<bar> \<le> a / b / 2 ^ 53" using q by simp
  then have "a / b - a / b / 2 ^ 53 \<le> fdiv a b" and "fdiv a b \<le> a / b + a / b / 2 ^ 53"
    by linarith+
  then show "a / b * (1 - 1 / 2 ^ 53) \<le> fdiv a b" and "fdiv a b \<le> a / b * (1 + 1 / 2 ^ 53)"
    by (simp_all add: algebra_simps)
qed

lemma rounded_division_pos:
  assumes "rounded_division fdiv" and "0 < a" and "0 < b"
  shows "0 < fdiv a b"
proof -
  have "0 < a / b * (1 - 1 / 2 ^ 53)" using assms(2,3) by simp
  with rounded_division_bounds(1) [OF assms] show ?thesis by linarith
qed

text \<open>
  C4 fails when the first timestamp is repeated: \<open>t = [0, 0, 10]\<close> is non-decreasing
  with \<open>max(t) > min(t)\<close>, yet the first output point is \<open>(x[1], y[1]) = (7, 2)\<close>, not
  \<open>(x[0], y[0]) = (5, 1)\<close>. The two quotients \<open>10 / 2\<close> and \<open>10 / 5\<close> are exact in
  doubles.
\<close>

theorem even_time_steps_repeated_start_counterexample:
  "even_time_steps (/) [5, 7, 9] [1, 2, 3] [0, 0, 10] 2 = Inr ([7, 8], [2, 5 / 2], [0, 5])"
  by (simp add: even_time_steps_def py_min_def py_max_def arange_def interp_def interp_at_def
      binary_search_with_guess_def upt_rec [of _ "numeral _"] upt_rec [of _ "Suc _"])

text \<open>
  C4, amended. For equal-length \<open>x\<close>, \<open>y\<close>, \<open>t\<close> with \<open>t\<close> non-decreasing,
  \<open>max(t) > min(t)\<close> and a step count \<open>N \<ge> 1\<close>, \<open>even_time_steps\<close> returns three
  sequences of one common length, at least 1. The first timestamp is \<open>min(t)\<close> and
  the first output point is \<open>(x[j], y[j])\<close>, where \<open>j\<close> is the last index whose
  timestamp equals \<open>t[0]\<close>; that is \<open>(x[0], y[0])\<close> when \<open>t[0] < t[1]\<close>. Whether the
  common length is \<open>N\<close> depends on the rounding of the quotients that \<open>arange\<close>
  takes the ceiling of, and is not part of the statement.
\<close>

theorem even_time_steps_first_point:
  assumes "rounded_division fdiv"
    and "length x = length t" and "length y = length t"
    and "sorted t" and "t \<noteq> []" and "Min (set t) < Max (set t)" and "0 < N"
    and "Suc j < length t" and "t ! j = hd t" and "hd t < t ! Suc j"
  shows "\<exists>nx ny nt. even_time_steps fdiv x y t N = Inr (nx, ny, nt)
           \<and> nt \<noteq> [] \<and> length nx = length nt \<and> length ny = length nt
           \<and> hd nt = Min (set t) \<and> hd nx = x ! j \<and> hd ny = y ! j"
proof -
  define lo where "lo = hd t"
  define hi where "hi = last t"
  define step where "step = fdiv (hi - lo) (real_of_int N)"
  define n where "n = nat \<lceil>fdiv (hi - lo) step\<rceil>"
  define nt where "nt = map (\<lambda>i. lo + real i * step) [0..<n]"
  have lo: "Min (set t) = lo" and hi: "Max (set t) = hi"
    using assms(4,5) by (simp_all add: lo_def hi_def sorted_Min_hd sorted_Max_last)
  have lt: "0 < hi - lo" using assms(6) lo hi by simp
  have N: "0 < real_of_int N" using assms(7) by simp
  have step: "0 < step"
    unfolding step_def using assms(1) lt N by (rule rounded_division_pos)
  have "0 < fdiv (hi - lo) step"
    using assms(1) lt step by (rule rounded_division_pos)
  then have cpos: "0 < \<lceil>fdiv (hi - lo) step\<rceil>" by linarith
  then have npos: "0 < n" by (simp add: n_def)
  have ar: "arange fdiv lo hi step = Inr nt"
    using step by (simp add: arange_def nt_def n_def)
  have res: "even_time_steps fdiv x y t N
      = Inr (map (interp_at t x) nt, map (interp_at t y) nt, nt)"
    using assms(2,3,5,7) ar
    by (simp add: even_time_steps_def py_min_Min py_max_Max lo hi interp_def step_def)
  have ntne: "nt \<noteq> []" using npos by (simp add: nt_def)
  have hd_nt: "hd nt = lo"
    using npos by (simp add: nt_def hd_map)
  have "hd (map (interp_at t x) nt) = x ! j"
    using ntne hd_nt interp_at_first [OF assms(4,8,9,10), of x] by (simp add: hd_map lo_def)
  moreover have "hd (map (interp_at t y) nt) = y ! j"
    using ntne hd_nt interp_at_first [OF assms(4,8,9,10), of y] by (simp add: hd_map lo_def)
  ultimately show ?thesis
    using res ntne hd_nt lo by simp
qed

theorem even_time_steps_first_point_witness:
  "rounded_division (/)
   \<and> length [5, 7, 9 :: real] = length [0, 0, 10 :: real]
   \<and> length [1, 2, 3 :: real] = length [0, 0, 10 :: real]
   \<and> sorted [0, 0, 10 :: real] \<and> [0, 0, 10 :: real] \<noteq> []
   \<and> Min (set [0, 0, 10 :: real]) < Max (set [0, 0, 10])
   \<and> (0::int) < 2 \<and> Suc 1 < length [0, 0, 10 :: real]
   \<and> [0, 0, 10 :: real] ! 1 = hd [0, 0, 10]
   \<and> hd [0, 0, 10 :: real] < [0, 0, 10] ! Suc 1
   \<and> (\<exists>nx ny nt. even_time_steps (/) [5, 7, 9] [1, 2, 3] [0, 0, 10] 2 = Inr (nx, ny, nt)
         \<and> nt \<noteq> [] \<and> length nx = length nt \<and> length ny = length nt
         \<and> hd nt = Min (set [0, 0, 10]) \<and> hd nx = [5, 7, 9] ! 1 \<and> hd ny = [1, 2, 3] ! 1)"
proof -
  have h: "rounded_division (/)"
    "length [5, 7, 9 :: real] = length [0, 0, 10 :: real]"
    "length [1, 2, 3 :: real] = length [0, 0, 10 :: real]"
    "sorted [0, 0, 10 :: real]" "[0, 0, 10 :: real] \<noteq> []"
    "Min (set [0, 0, 10 :: real]) < Max (set [0, 0, 10])"
    "(0::int) < 2" "Suc 1 < length [0, 0, 10 :: real]"
    "[0, 0, 10 :: real] ! 1 = hd [0, 0, 10]"
    "hd [0, 0, 10 :: real] < [0, 0, 10] ! Suc 1"
    by (simp_all add: rounded_division_exact)
  from even_time_steps_first_point [OF h] h show ?thesis by blast
qed

text \<open>
  What \<open>uniform_time\<close> returns when at least one timestamp is generated: the
  interpolated part, followed by as many copies of its last value as the required
  length asks for beyond it, none when the interpolated part is already as long or
  longer.
\<close>

lemma uniform_time_value:
  assumes "timepoints \<noteq> []" and "length coordinates = length timepoints"
    and "desired_interval \<noteq> 0" and "0 < regular_count fdiv timepoints desired_interval"
  shows "uniform_time fdiv coordinates timepoints desired_interval max_duration =
     Inr (regular_part fdiv coordinates timepoints desired_interval
          @ replicate (nat (py_int (fdiv max_duration desired_interval)
                            - int (regular_count fdiv timepoints desired_interval)))
              (last (regular_part fdiv coordinates timepoints desired_interval)))"
proof -
  have ne: "regular_part fdiv coordinates timepoints desired_interval \<noteq> []"
    using assms(4) by (simp add: regular_part_def)
  obtain a rest where t: "timepoints = a # rest" using assms(1) by (cases timepoints) auto
  obtain b more where r: "regular_part fdiv coordinates timepoints desired_interval = b # more"
    using ne by (cases "regular_part fdiv coordinates timepoints desired_interval") auto
  have len: "length (regular_part fdiv coordinates timepoints desired_interval)
      = regular_count fdiv timepoints desired_interval"
    by (simp add: regular_part_def)
  have ar: "arange fdiv 0 (last timepoints + 1) desired_interval
      = Inr (map (\<lambda>i. real i * desired_interval)
               [0..<regular_count fdiv timepoints desired_interval])"
    using assms(3) by (simp add: arange_def regular_count_def)
  have le: "last_elem timepoints = Inr (last timepoints)"
    using t by (simp add: last_elem_def)
  have ip: "interp (map (\<lambda>i. real i * desired_interval)
                     [0..<regular_count fdiv timepoints desired_interval])
       timepoints coordinates = Inr (regular_part fdiv coordinates timepoints desired_interval)"
    using assms(1,2) by (simp add: interp_def regular_part_def)
  have lr: "last_elem (regular_part fdiv coordinates timepoints desired_interval)
      = Inr (last (regular_part fdiv coordinates timepoints desired_interval))"
    using r by (simp add: last_elem_def)
  show ?thesis
    by (simp add: uniform_time_def le ar ip lr len)
qed

text \<open>
  When the interpolated part is as long as the required length or longer, nothing is
  raised and nothing is cut: the result is the interpolated part.
\<close>

lemma uniform_time_overlong:
  assumes "timepoints \<noteq> []" and "length coordinates = length timepoints"
    and "desired_interval \<noteq> 0" and "0 < regular_count fdiv timepoints desired_interval"
    and "py_int (fdiv max_duration desired_interval)
           \<le> int (regular_count fdiv timepoints desired_interval)"
  shows "uniform_time fdiv coordinates timepoints desired_interval max_duration
           = Inr (regular_part fdiv coordinates timepoints desired_interval)"
  using uniform_time_value [OF assms(1-4), of max_duration] assms(5) by simp

text \<open>
  When the interpolated part is no longer than the required length, the result has
  exactly the required length, and from the last interpolated value on its elements are
  all equal to it.
\<close>

lemma uniform_time_padded:
  assumes "timepoints \<noteq> []" and "length coordinates = length timepoints"
    and "desired_interval \<noteq> 0" and "0 < regular_count fdiv timepoints desired_interval"
    and "int (regular_count fdiv timepoints desired_interval)
           \<le> py_int (fdiv max_duration desired_interval)"
  shows "\<exists>out. uniform_time fdiv coordinates timepoints desired_interval max_duration = Inr out
     \<and> int (length out) = py_int (fdiv max_duration desired_interval)
     \<and> (\<forall>i < length out. regular_count fdiv timepoints desired_interval - 1 \<le> i \<longrightarrow>
          out ! i = last (regular_part fdiv coordinates timepoints desired_interval))"
proof -
  define n where "n = regular_count fdiv timepoints desired_interval"
  define reg where "reg = regular_part fdiv coordinates timepoints desired_interval"
  define req where "req = py_int (fdiv max_duration desired_interval)"
  define out where "out = reg @ replicate (nat (req - int n)) (last reg)"
  have npos: "0 < n" unfolding n_def by (rule assms(4))
  have len: "length reg = n" by (simp add: reg_def regular_part_def n_def)
  have nle: "int n \<le> req" using assms(5) by (simp add: n_def req_def)
  have res: "uniform_time fdiv coordinates timepoints desired_interval max_duration = Inr out"
    using uniform_time_value [OF assms(1-4), of max_duration]
    by (simp add: out_def reg_def req_def n_def)
  have lout: "int (length out) = req"
    using nle by (simp add: out_def len)
  have tail: "\<forall>i < length out. n - 1 \<le> i \<longrightarrow> out ! i = last reg"
  proof (intro allI impI)
    fix i assume i: "i < length out" "n - 1 \<le> i"
    show "out ! i = last reg"
    proof (cases "i < n")
      case True
      with i npos have "i = n - 1" by simp
      moreover have "reg \<noteq> []" using len npos by auto
      ultimately show ?thesis
        using True len by (simp add: out_def nth_append last_conv_nth)
    next
      case False
      with i len show ?thesis
        by (simp add: out_def nth_append)
    qed
  qed
  show ?thesis
    using res lout tail by (simp add: n_def reg_def req_def)
qed

text \<open>The two quotients of the examples below, under any rounded division.\<close>

lemma rounded_ceiling_eq:
  assumes "rounded_division fdiv" and "0 < a" and "0 < b"
    and "real_of_int k - 1 < a / b * (1 - 1 / 2 ^ 53)"
    and "a / b * (1 + 1 / 2 ^ 53) \<le> real_of_int k"
  shows "\<lceil>fdiv a b\<rceil> = k"
proof (rule ceiling_unique)
  show "real_of_int k - 1 < fdiv a b"
    using rounded_division_bounds(1) [OF assms(1-3)] assms(4) by linarith
  show "fdiv a b \<le> real_of_int k"
    using rounded_division_bounds(2) [OF assms(1-3)] assms(5) by linarith
qed

lemma rounded_py_int_le:
  assumes "rounded_division fdiv" and "0 < a" and "0 < b"
    and "a / b * (1 + 1 / 2 ^ 53) < real_of_int k + 1"
  shows "py_int (fdiv a b) \<le> k"
proof -
  have "0 < fdiv a b" using assms(1-3) by (rule rounded_division_pos)
  then have "py_int (fdiv a b) = \<lfloor>fdiv a b\<rfloor>" by (simp add: py_int_def)
  moreover have "fdiv a b < real_of_int k + 1"
    using rounded_division_bounds(2) [OF assms(1-3)] assms(4) by linarith
  then have "\<lfloor>fdiv a b\<rfloor> \<le> k" by linarith
  ultimately show ?thesis by simp
qed

text \<open>
  C2. The claim: \<open>uniform_time\<close> raises an error whenever \<open>t[-1] > max_duration\<close>,
  as its docstring says ("Currently crashes if max(timepoints) > max_duration"). The
  code raises nothing: with \<open>t[-1] = 40\<close> and \<open>max_duration = 30\<close> it returns the five
  interpolated values, two more than the required length 3, however the two quotients
  \<open>41 / 10\<close> and \<open>30 / 10\<close> are rounded.
\<close>

theorem uniform_time_beyond_max_returns:
  "rounded_division fdiv \<Longrightarrow>
     uniform_time fdiv [0, 1] [0, 40] 10 30 = Inr [0, 1 / 4, 1 / 2, 3 / 4, 1]"
proof -
  assume r: "rounded_division fdiv"
  have c: "\<lceil>fdiv 41 10\<rceil> = 5"
    using r by (rule rounded_ceiling_eq) simp_all
  have n: "regular_count fdiv [0, 40] 10 = 5"
    by (simp add: regular_count_def c)
  have q: "py_int (fdiv 30 10) \<le> 3"
    using r by (rule rounded_py_int_le) simp_all
  have reg: "regular_part fdiv [0, 1] [0, 40] 10 = [0, 1 / 4, 1 / 2, 3 / 4, 1]"
    by (simp add: regular_part_def n interp_at_def binary_search_with_guess_def
        upt_rec [of _ "numeral _"] upt_rec [of _ "Suc _"])
  have "uniform_time fdiv [0, 1] [0, 40] 10 30 = Inr (regular_part fdiv [0, 1] [0, 40] 10)"
    using q by (intro uniform_time_overlong) (simp_all add: n)
  then show ?thesis by (simp add: reg)
qed

theorem uniform_time_beyond_max_returns_witness:
  "rounded_division (/) \<and> uniform_time (/) [0, 1] [0, 40] 10 30 = Inr [0, 1 / 4, 1 / 2, 3 / 4, 1]"
  using uniform_time_beyond_max_returns [OF rounded_division_exact] rounded_division_exact
  by simp

text \<open>
  C5. The claim: for \<open>t[-1] \<le> max_duration\<close> the result has exactly
  \<open>floor(max_duration / interval)\<close> elements. At \<open>t[-1] = max_duration = 30\<close> with
  interval 10 the timestamps \<open>0, 10, 20, 30\<close> are generated, the required length is at
  most 3, the padding count is not positive, and the result has 4 elements, however the
  two quotients \<open>31 / 10\<close> and \<open>30 / 10\<close> are rounded.
\<close>

theorem uniform_time_at_max_too_long:
  "rounded_division fdiv \<Longrightarrow>
     uniform_time fdiv [0, 1] [0, 30] 10 30 = Inr [0, 1 / 3, 2 / 3, 1]"
proof -
  assume r: "rounded_division fdiv"
  have c: "\<lceil>fdiv 31 10\<rceil> = 4"
    using r by (rule rounded_ceiling_eq) simp_all
  have n: "regular_count fdiv [0, 30] 10 = 4"
    by (simp add: regular_count_def c)
  have q: "py_int (fdiv 30 10) \<le> 3"
    using r by (rule rounded_py_int_le) simp_all
  have reg: "regular_part fdiv [0, 1] [0, 30] 10 = [0, 1 / 3, 2 / 3, 1]"
    by (simp add: regular_part_def n interp_at_def binary_search_with_guess_def
        upt_rec [of _ "numeral _"] upt_rec [of _ "Suc _"])
  have "uniform_time fdiv [0, 1] [0, 30] 10 30 = Inr (regular_part fdiv [0, 1] [0, 30] 10)"
    using q by (intro uniform_time_overlong) (simp_all add: n)
  then show ?thesis by (simp add: reg)
qed

theorem uniform_time_at_max_too_long_witness:
  "rounded_division (/) \<and> uniform_time (/) [0, 1] [0, 30] 10 30 = Inr [0, 1 / 3, 2 / 3, 1]"
  using uniform_time_at_max_too_long [OF rounded_division_exact] rounded_division_exact
  by simp

section \<open>Properties of the geometric deviation engine\<close>

text \<open>
  C1. The claim: the first reference point is \<open>(x[0], y[-1])\<close>. The code reads
  \<open>ry1\<close> from \<open>x_path[-1]\<close>. On \<open>x = [2, -2]\<close>, \<open>y = [1, 1]\<close> it measures from
  \<open>(2, -2)\<close> and \<open>(-2, -2)\<close> and returns \<open>[3/8, 5/8]\<close>; its own loop run with the
  reference points \<open>(2, 1)\<close> and \<open>(-2, 1)\<close> of the claim returns \<open>[0, 1]\<close>.
\<close>

theorem rel_distance_reference_from_x:
  "rel_distance [2, - 2] [1, 1] = Inr [3 / 8, 5 / 8]
   \<and> rel_distance_loop 2 1 (- 2) 1 [2, - 2] [1, 1] = Inr [0, 1]"
proof -
  have a: "sqrt 9 = 3" using real_sqrt_abs [of 3] by simp
  have b: "sqrt 25 = 5" using real_sqrt_abs [of 5] by simp
  have c: "sqrt 16 = 4" using real_sqrt_abs [of 4] by simp
  have "rel_distance [2, - 2] [1, 1] = Inr [3 / 8, 5 / 8]"
    by (simp add: rel_distance_def first_elem_def last_elem_def a b)
  moreover have "rel_distance_loop 2 1 (- 2) 1 [2, - 2] [1, 1] = Inr [0, 1]"
    by (simp add: c)
  ultimately show ?thesis by simp
qed

text \<open>
  Away from the wrap-around step the loop pairs each index with its predecessor; when
  all those steps contribute the same area, the sum is that area times their number.
\<close>

lemma areas_loop_const:
  assumes "\<And>i. k \<le> i \<Longrightarrow> i < n \<Longrightarrow> x ! i * y ! (i - 1) - y ! i * x ! (i - 1) = C"
    and "0 < k"
  shows "sum_list (areas_loop x y [k..<n] (k - 1)) = real (n - k) * C"
  using assms
proof (induction "n - k" arbitrary: k)
  case 0
  then show ?case by simp
next
  case (Suc m)
  then have lt: "k < n" by simp
  have step: "x ! k * y ! (k - 1) - y ! k * x ! (k - 1) = C"
    using Suc.prems(1) [of k] lt by simp
  have "m = n - Suc k" using Suc.hyps(2) by simp
  then have "sum_list (areas_loop x y [Suc k..<n] (Suc k - 1)) = real (n - Suc k) * C"
    using Suc.prems by (intro Suc.hyps(1)) simp_all
  then show ?case
    using lt step by (simp add: upt_conv_Cons Suc_diff_Suc algebra_simps)
qed

text \<open>
  \<open>auc\<close> of a path whose \<open>x\<close> and \<open>y\<close> are affine in the sample index is 0: the
  \<open>n - 1\<close> forward steps contribute \<open>b * c - a * d\<close> each and the wrap-around step
  cancels them.
\<close>

lemma auc_affine:
  "auc (map (\<lambda>i. a + b * real i) [0..<n]) (map (\<lambda>i. c + d * real i) [0..<n]) = Inr 0"
proof (cases n)
  case 0
  then show ?thesis by (simp add: auc_def)
next
  case (Suc m)
  define x where "x = map (\<lambda>i. a + b * real i) [0..<n]"
  define y where "y = map (\<lambda>i. c + d * real i) [0..<n]"
  have xi: "\<And>i. i < n \<Longrightarrow> x ! i = a + b * real i"
    and yi: "\<And>i. i < n \<Longrightarrow> y ! i = c + d * real i"
    by (simp_all add: x_def y_def)
  have rest: "sum_list (areas_loop x y [1..<n] (1 - 1)) = real (n - 1) * (b * c - a * d)"
  proof (rule areas_loop_const)
    fix i :: nat assume i: "1 \<le> i" "i < n"
    then have "real (i - 1) = real i - 1" by simp
    then show "x ! i * y ! (i - 1) - y ! i * x ! (i - 1) = b * c - a * d"
      using i by (simp add: xi yi algebra_simps)
  qed simp
  have first: "x ! 0 * y ! (n - 1) - y ! 0 * x ! (n - 1) = real (n - 1) * (a * d - b * c)"
    using Suc by (simp add: xi yi algebra_simps)
  have "[0..<n] = 0 # [1..<n]" using Suc by (simp add: upt_conv_Cons)
  then have "sum_list (areas_loop x y [0..<n] (n - 1)) =
      (x ! 0 * y ! (n - 1) - y ! 0 * x ! (n - 1)) + sum_list (areas_loop x y [1..<n] 0)"
    by simp
  also have "\<dots> = 0" using first rest by (simp add: algebra_simps)
  finally show ?thesis
    by (simp add: auc_def x_def y_def)
qed

text \<open>
  C3. The claim: \<open>auc\<close> and \<open>auc2\<close> are both 0 on a straight path. \<open>auc\<close> is
  (\<open>auc_affine\<close>); \<open>auc2\<close> is not on every such path. Its docstring subtracts
  "the triangular area between the straight line and the x axis" from the area under
  the curve, but the code
  does not halve the shoelace sum and takes the triangle's height as \<open>y[-1] * y[0]\<close>
  after \<open>y[0]\<close> has been appended to \<open>y\<close>. On the straight path from \<open>(0, 0)\<close> to
  \<open>(1, 1)\<close> the sum is 1, the triangle 0, and \<open>auc2\<close> returns 1.
\<close>

theorem auc2_straight_path_nonzero:
  "auc2 [0, 1] [0, 1] = Inr 1"
  by (simp add: auc2_def last_elem_def first_elem_def upt_rec [of _ "numeral _"]
      upt_rec [of _ "Suc _"])

text \<open>
  Rotating by the angle of the ideal line turns the horizontal distance from the line,
  scaled by the cosine of the angle, into the first coordinate.
\<close>

lemma rotate_fst:
  "fst (rotate px py (arctan k)) = cos (arctan k) * (px - k * py)"
proof -
  have "tan (arctan k) = k" by (rule tan_arctan)
  then have "sin (arctan k) = k * cos (arctan k)"
    using cos_arctan_not_zero [of k] by (simp add: tan_def field_simps)
  then show ?thesis
    by (simp add: rotate_def Let_def algebra_simps)
qed

lemma cos_arctan_pos: "0 < cos (arctan k)"
  by (rule cos_gt_zero_pi [OF arctan_lbound arctan_ubound])

lemma Min_scale:
  fixes c :: real
  assumes "0 < c" and "vs \<noteq> []"
  shows "Min (set (map ((*) c) vs)) = c * Min (set vs)"
proof -
  have "mono ((*) c)" using assms(1) by (simp add: mono_def)
  then have "c * Min (set vs) = Min ((*) c ` set vs)"
    using assms(2) by (intro mono_Min_commute) auto
  then show ?thesis by simp
qed

lemma Max_scale:
  fixes c :: real
  assumes "0 < c" and "vs \<noteq> []"
  shows "Max (set (map ((*) c) vs)) = c * Max (set vs)"
proof -
  have "mono ((*) c)" using assms(1) by (simp add: mono_def)
  then have "c * Max (set vs) = Max ((*) c ` set vs)"
    using assms(2) by (intro mono_Max_commute) auto
  then show ?thesis by simp
qed

text \<open>
  On well-formed input \<open>max_deviation\<close> compares the extreme offsets of the path,
  scaled by the (positive) cosine of the rotation angle.
\<close>

lemma max_deviation_value:
  assumes "length x = length y" and "y \<noteq> []" and "last y \<noteq> 0"
  shows "max_deviation x y =
     Inr (if \<bar>cos (arctan (last x / last y)) * Min (set (offsets x y))\<bar>
              > \<bar>cos (arctan (last x / last y)) * Max (set (offsets x y))\<bar>
          then \<bar>cos (arctan (last x / last y)) * Min (set (offsets x y))\<bar>
          else - \<bar>cos (arctan (last x / last y)) * Max (set (offsets x y))\<bar>)"
proof -
  define c where "c = cos (arctan (last x / last y))"
  define rx where "rx = map fst (map (\<lambda>(localx, localy). rotate localx localy (arctan (last x / last y))) (zip x y))"
  have xne: "x \<noteq> []" using assms(1,2) by auto
  have lx: "last_elem x = Inr (last x)" and ly: "last_elem y = Inr (last y)"
    using xne assms(2) by (simp_all add: last_elem_def split: list.splits)
  have rx: "rx = map ((*) c) (offsets x y)"
    by (simp add: rx_def offsets_def c_def rotate_fst split_def)
  have one: "offsets x y \<noteq> []"
    using xne assms(2) by (cases x; cases y) (simp_all add: offsets_def)
  then have rne: "rx \<noteq> []" by (simp add: rx)
  have c: "0 < c" by (simp add: c_def cos_arctan_pos)
  have mn: "py_min rx = Inr (c * Min (set (offsets x y)))"
    using rne one c by (simp add: py_min_Min rx Min_scale del: set_map)
  have mx: "py_max rx = Inr (c * Max (set (offsets x y)))"
    using rne one c by (simp add: py_max_Max rx Max_scale del: set_map)
  have nz: "(last y = 0) = False" using assms(3) by simp
  have "max_deviation x y =
      (if \<bar>c * Min (set (offsets x y))\<bar> > \<bar>c * Max (set (offsets x y))\<bar>
       then Inr \<bar>c * Min (set (offsets x y))\<bar>
       else Inr (- 1 * \<bar>c * Max (set (offsets x y))\<bar>))"
    by (simp only: max_deviation_def lx ly sum.case nz if_False Let_def
        rx_def [symmetric] mn mx)
  then show ?thesis by (simp add: c_def)
qed


lemma offsets_length: "length x = length y \<Longrightarrow> length (offsets x y) = length x"
  by (simp add: offsets_def)

lemma offsets_nth:
  assumes "length x = length y" and "i < length x"
  shows "offsets x y ! i = x ! i - last x / last y * y ! i"
  using assms by (simp add: offsets_def)

lemma offsets_mem:
  assumes "length x = length y"
  shows "v \<in> set (offsets x y) \<longleftrightarrow> (\<exists>i < length x. v = x ! i - last x / last y * y ! i)"
proof
  assume "v \<in> set (offsets x y)"
  then obtain i where i: "i < length (offsets x y)" "offsets x y ! i = v"
    unfolding in_set_conv_nth by blast
  from i(1) have "i < length x" by (simp add: offsets_length [OF assms])
  moreover from this i(2) have "v = x ! i - last x / last y * y ! i"
    by (simp add: offsets_nth [OF assms])
  ultimately show "\<exists>i < length x. v = x ! i - last x / last y * y ! i" by blast
next
  assume "\<exists>i < length x. v = x ! i - last x / last y * y ! i"
  then obtain i where i: "i < length x" "v = x ! i - last x / last y * y ! i" by blast
  have "offsets x y ! i \<in> set (offsets x y)"
    using i(1) by (intro nth_mem) (simp add: offsets_length [OF assms])
  then show "v \<in> set (offsets x y)"
    using i by (simp add: offsets_nth [OF assms])
qed

lemma offsets_endpoint:
  assumes "length x = length y" and "y \<noteq> []" and "last y \<noteq> 0"
  shows "0 \<in> set (offsets x y)"
proof -
  have xne: "x \<noteq> []" using assms(1,2) by auto
  have "x ! (length x - 1) - last x / last y * y ! (length x - 1) = 0"
    using assms xne by (simp add: last_conv_nth)
  moreover have "length x - 1 < length x" using xne by simp
  ultimately have "\<exists>i < length x. 0 = x ! i - last x / last y * y ! i"
    by (intro exI [of _ "length x - 1"]) simp
  then show ?thesis by (simp add: offsets_mem [OF assms(1)])
qed

lemma mirror_point_endpoint:
  assumes "ey \<noteq> 0"
  shows "mirror_point ex ey (ex, ey) = (ex, ey)"
proof -
  have "ex\<^sup>2 + ey\<^sup>2 \<noteq> 0"
    using assms by (simp add: sum_power2_eq_zero_iff)
  then have nz: "ex * ex + ey * ey \<noteq> 0" by (simp add: power2_eq_square)
  have c: "2 * (ex * ex + ey * ey) / (ex * ex + ey * ey) = 2"
    using nz by (rule nonzero_mult_div_cancel_right)
  show ?thesis
    unfolding mirror_point_def Let_def fst_conv snd_conv power2_eq_square c by simp
qed

text \<open>A reflected point lies as far from the line as the point, on the other side.\<close>

lemma mirror_point_offset:
  assumes "ey \<noteq> 0"
  shows "fst (mirror_point ex ey p) - ex / ey * snd (mirror_point ex ey p)
           = - (fst p - ex / ey * snd p)"
proof -
  define k where "k = ex / ey"
  define c where "c = 2 * (fst p * ex + snd p * ey) / (ex\<^sup>2 + ey\<^sup>2)"
  have ke: "k * ey = ex" using assms by (simp add: k_def)
  have "k * (c * ey - snd p) = c * (k * ey) - k * snd p"
    by (simp add: algebra_simps)
  also have "\<dots> = c * ex - k * snd p" by (simp only: ke)
  finally have main: "(c * ex - fst p) - k * (c * ey - snd p) = - (fst p - k * snd p)"
    by simp
  show ?thesis
    unfolding mirror_point_def Let_def fst_conv snd_conv c_def [symmetric] k_def [symmetric]
    by (rule main)
qed

lemma mirror_path_shape:
  assumes "length x = length y" and "y \<noteq> []" and "last y \<noteq> 0"
  shows "length (map fst (mirror_path x y)) = length (map snd (mirror_path x y))"
    and "map snd (mirror_path x y) \<noteq> []"
    and "last (map fst (mirror_path x y)) = last x"
    and "last (map snd (mirror_path x y)) = last y"
proof -
  have xne: "x \<noteq> []" using assms(1,2) by auto
  have zne: "zip x y \<noteq> []" using xne assms(2) by (cases x; cases y) simp_all
  have lz: "last (zip x y) = (last x, last y)"
    using xne assms(2,1) by (rule last_zip)
  have mne: "mirror_path x y \<noteq> []" using zne by (simp add: mirror_path_def)
  have lm: "last (mirror_path x y) = (last x, last y)"
    using zne by (simp add: mirror_path_def last_map lz mirror_point_endpoint [OF assms(3)])
  show "length (map fst (mirror_path x y)) = length (map snd (mirror_path x y))" by simp
  show "map snd (mirror_path x y) \<noteq> []" using mne by simp
  show "last (map fst (mirror_path x y)) = last x"
    using mne by (simp add: last_map lm)
  show "last (map snd (mirror_path x y)) = last y"
    using mne by (simp add: last_map lm)
qed

lemma mirror_path_offsets:
  assumes "length x = length y" and "y \<noteq> []" and "last y \<noteq> 0"
  shows "offsets (map fst (mirror_path x y)) (map snd (mirror_path x y))
           = map uminus (offsets x y)"
proof -
  have "offsets (map fst (mirror_path x y)) (map snd (mirror_path x y))
      = map (\<lambda>p. fst p - last x / last y * snd p) (mirror_path x y)"
    unfolding offsets_def mirror_path_shape(3,4) [OF assms]
    by (simp add: zip_map_fst_snd split_def)
  also have "\<dots> = map (\<lambda>p. - (fst p - last x / last y * snd p)) (zip x y)"
    unfolding mirror_path_def map_map comp_def mirror_point_offset [OF assms(3)] ..
  also have "\<dots> = map uminus (offsets x y)"
    unfolding offsets_def map_map comp_def split_def ..
  finally show ?thesis .
qed

lemma mirror_Min_Max:
  assumes "length x = length y" and "y \<noteq> []" and "last y \<noteq> 0"
  shows "Min (set (offsets (map fst (mirror_path x y)) (map snd (mirror_path x y))))
           = - Max (set (offsets x y))"
    and "Max (set (offsets (map fst (mirror_path x y)) (map snd (mirror_path x y))))
           = - Min (set (offsets x y))"
proof -
  have ne: "set (offsets x y) \<noteq> {}"
  proof
    assume "set (offsets x y) = {}"
    with offsets_endpoint [OF assms] show False by simp
  qed
  have im: "set (offsets (map fst (mirror_path x y)) (map snd (mirror_path x y)))
      = uminus ` set (offsets x y)"
    by (simp only: mirror_path_offsets [OF assms] set_map)
  show "Min (set (offsets (map fst (mirror_path x y)) (map snd (mirror_path x y))))
           = - Max (set (offsets x y))"
    unfolding im by (rule minus_Max_eq_Min [OF finite_set ne, symmetric])
  show "Max (set (offsets (map fst (mirror_path x y)) (map snd (mirror_path x y))))
           = - Min (set (offsets x y))"
    unfolding im by (rule minus_Min_eq_Max [OF finite_set ne, symmetric])
qed

lemma max_deviation_mirror_value:
  assumes "length x = length y" and "y \<noteq> []" and "last y \<noteq> 0"
  shows "max_deviation (map fst (mirror_path x y)) (map snd (mirror_path x y)) =
     Inr (if \<bar>cos (arctan (last x / last y)) * Max (set (offsets x y))\<bar>
              > \<bar>cos (arctan (last x / last y)) * Min (set (offsets x y))\<bar>
          then \<bar>cos (arctan (last x / last y)) * Max (set (offsets x y))\<bar>
          else - \<bar>cos (arctan (last x / last y)) * Min (set (offsets x y))\<bar>)"
proof -
  note sh = mirror_path_shape [OF assms]
  have nz: "last (map snd (mirror_path x y)) \<noteq> 0" using sh(4) assms(3) by simp
  have a: "\<bar>c * - v\<bar> = \<bar>c * v\<bar>" for c v :: real by simp
  show ?thesis
    unfolding max_deviation_value [OF sh(1,2) nz] mirror_Min_Max [OF assms] sh(3,4) a ..
qed

text \<open>
  C7. Let the ideal line run from the origin to the path's last point \<open>(x[-1], y[-1])\<close>,
  with \<open>y[-1] \<noteq> 0\<close>. If every point of the path lies on that line, \<open>max_deviation\<close>
  is 0. If every point lies on the line or to its left (\<open>x[i] \<le> x[-1] / y[-1] * y[i]\<close>)
  and some point strictly so, \<open>max_deviation\<close> is positive, and on the mirror image of
  the path across the line it is the negative of that value; with right for left, it is
  negative and its mirror image's value is the positive one. The values are those of
  exact arithmetic; with the rounded sine and cosine of doubles the zero of a straight
  path is reached up to rounding only.
\<close>

theorem max_deviation_sign_convention:
  assumes "length x = length y" and "y \<noteq> []" and "last y \<noteq> 0"
  shows "((\<forall>i < length x. x ! i * last y = last x * y ! i) \<longrightarrow> max_deviation x y = Inr 0)
   \<and> ((\<forall>i < length x. x ! i \<le> last x / last y * y ! i)
        \<and> (\<exists>i < length x. x ! i < last x / last y * y ! i) \<longrightarrow>
      (\<exists>m > 0. max_deviation x y = Inr m
         \<and> max_deviation (map fst (mirror_path x y)) (map snd (mirror_path x y)) = Inr (- m)))
   \<and> ((\<forall>i < length x. last x / last y * y ! i \<le> x ! i)
        \<and> (\<exists>i < length x. last x / last y * y ! i < x ! i) \<longrightarrow>
      (\<exists>m < 0. max_deviation x y = Inr m
         \<and> max_deviation (map fst (mirror_path x y)) (map snd (mirror_path x y)) = Inr (- m)))"
proof -
  define c where "c = cos (arctan (last x / last y))"
  define lo where "lo = Min (set (offsets x y))"
  define hi where "hi = Max (set (offsets x y))"
  have c: "0 < c" unfolding c_def by (rule cos_arctan_pos)
  have fin: "finite (set (offsets x y))" by (rule finite_set)
  have zero: "0 \<in> set (offsets x y)" by (rule offsets_endpoint [OF assms])
  have ne: "set (offsets x y) \<noteq> {}"
  proof
    assume "set (offsets x y) = {}"
    with zero show False by simp
  qed
  note mem = offsets_mem [OF assms(1)]
  have orig: "max_deviation x y
      = Inr (if \<bar>c * lo\<bar> > \<bar>c * hi\<bar> then \<bar>c * lo\<bar> else - \<bar>c * hi\<bar>)"
    unfolding c_def lo_def hi_def by (rule max_deviation_value [OF assms])
  have mirr: "max_deviation (map fst (mirror_path x y)) (map snd (mirror_path x y))
      = Inr (if \<bar>c * hi\<bar> > \<bar>c * lo\<bar> then \<bar>c * hi\<bar> else - \<bar>c * lo\<bar>)"
    unfolding c_def lo_def hi_def by (rule max_deviation_mirror_value [OF assms])
  have straight: "max_deviation x y = Inr 0"
    if col: "\<forall>i < length x. x ! i * last y = last x * y ! i"
  proof -
    have all0: "v = 0" if "v \<in> set (offsets x y)" for v
    proof -
      from that obtain i where i: "i < length x" "v = x ! i - last x / last y * y ! i"
        unfolding mem by blast
      from col i(1) have "x ! i * last y = last x * y ! i" by blast
      then have "x ! i = last x * y ! i / last y"
        using assms(3) by (simp add: nonzero_eq_divide_eq)
      with i(2) show "v = 0" by simp
    qed
    have "lo = 0" unfolding lo_def
    proof (rule Min_eqI [OF fin _ zero])
      fix v assume "v \<in> set (offsets x y)"
      from all0 [OF this] show "0 \<le> v" by simp
    qed
    moreover have "hi = 0" unfolding hi_def
    proof (rule Max_eqI [OF fin _ zero])
      fix v assume "v \<in> set (offsets x y)"
      from all0 [OF this] show "v \<le> 0" by simp
    qed
    ultimately show ?thesis by (simp add: orig)
  qed
  have left: "\<exists>m > 0. max_deviation x y = Inr m
         \<and> max_deviation (map fst (mirror_path x y)) (map snd (mirror_path x y)) = Inr (- m)"
    if side: "(\<forall>i < length x. x ! i \<le> last x / last y * y ! i)
        \<and> (\<exists>i < length x. x ! i < last x / last y * y ! i)"
  proof -
    have hi: "hi = 0" unfolding hi_def
    proof (rule Max_eqI [OF fin _ zero])
      fix v assume "v \<in> set (offsets x y)"
      then obtain i where i: "i < length x" "v = x ! i - last x / last y * y ! i"
        unfolding mem by blast
      from side i(1) have "x ! i \<le> last x / last y * y ! i" by blast
      with i(2) show "v \<le> 0" by simp
    qed
    from side obtain i where i: "i < length x" "x ! i < last x / last y * y ! i" by blast
    have "x ! i - last x / last y * y ! i \<in> set (offsets x y)"
      unfolding mem using i(1) by blast
    moreover have "x ! i - last x / last y * y ! i < 0" using i(2) by simp
    ultimately have "\<exists>v \<in> set (offsets x y). v < 0" by blast
    then have lo: "lo < 0" unfolding lo_def by (simp only: Min_less_iff [OF fin ne])
    have neg: "c * lo < 0" using c lo by (rule mult_pos_neg)
    then have al: "\<bar>c * lo\<bar> = - (c * lo)" by simp
    have o: "max_deviation x y = Inr (- (c * lo))"
      unfolding orig hi al using neg by simp
    have m: "max_deviation (map fst (mirror_path x y)) (map snd (mirror_path x y))
        = Inr (- (- (c * lo)))"
      unfolding mirr hi al using neg by simp
    have "0 < - (c * lo)" using neg by simp
    with o m show ?thesis by blast
  qed
  have right: "\<exists>m < 0. max_deviation x y = Inr m
         \<and> max_deviation (map fst (mirror_path x y)) (map snd (mirror_path x y)) = Inr (- m)"
    if side: "(\<forall>i < length x. last x / last y * y ! i \<le> x ! i)
        \<and> (\<exists>i < length x. last x / last y * y ! i < x ! i)"
  proof -
    have lo: "lo = 0" unfolding lo_def
    proof (rule Min_eqI [OF fin _ zero])
      fix v assume "v \<in> set (offsets x y)"
      then obtain i where i: "i < length x" "v = x ! i - last x / last y * y ! i"
        unfolding mem by blast
      from side i(1) have "last x / last y * y ! i \<le> x ! i" by blast
      with i(2) show "0 \<le> v" by simp
    qed
    from side obtain i where i: "i < length x" "last x / last y * y ! i < x ! i" by blast
    have "x ! i - last x / last y * y ! i \<in> set (offsets x y)"
      unfolding mem using i(1) by blast
    moreover have "0 < x ! i - last x / last y * y ! i" using i(2) by simp
    ultimately have "\<exists>v \<in> set (offsets x y). 0 < v" by blast
    then have hi: "0 < hi" unfolding hi_def by (simp only: Max_gr_iff [OF fin ne])
    have pos: "0 < c * hi" using c hi by (rule mult_pos_pos)
    then have ah: "\<bar>c * hi\<bar> = c * hi" by simp
    have o: "max_deviation x y = Inr (- (c * hi))"
      unfolding orig lo ah using pos by simp
    have m: "max_deviation (map fst (mirror_path x y)) (map snd (mirror_path x y))
        = Inr (- (- (c * hi)))"
      unfolding mirr lo ah using pos by simp
    have "- (c * hi) < 0" using pos by simp
    with o m show ?thesis by blast
  qed
  from straight left right show ?thesis by blast
qed

theorem max_deviation_sign_convention_witness:
  "(\<exists>m > 0. max_deviation [0, 0, 1] [0, 1, 1] = Inr m
       \<and> max_deviation (map fst (mirror_path [0, 0, 1] [0, 1, 1]))
             (map snd (mirror_path [0, 0, 1] [0, 1, 1])) = Inr (- m))
   \<and> mirror_path [0, 0, 1] [0, 1, 1] = [(0, 0), (1, 0), (1, 1)]
   \<and> (\<exists>m < 0. max_deviation [0, 1, 1] [0, 0, 1] = Inr m
       \<and> max_deviation (map fst (mirror_path [0, 1, 1] [0, 0, 1]))
             (map snd (mirror_path [0, 1, 1] [0, 0, 1])) = Inr (- m))
   \<and> max_deviation [0, 1, 2] [0, 2, 4] = Inr 0"
proof -
  have l: "length [0, 0, 1 :: real] = length [0, 1, 1 :: real]" "[0, 1, 1 :: real] \<noteq> []"
    "last [0, 1, 1 :: real] \<noteq> 0" by simp_all
  have r: "length [0, 1, 1 :: real] = length [0, 0, 1 :: real]" "[0, 0, 1 :: real] \<noteq> []"
    "last [0, 0, 1 :: real] \<noteq> 0" by simp_all
  have s: "length [0, 1, 2 :: real] = length [0, 2, 4 :: real]" "[0, 2, 4 :: real] \<noteq> []"
    "last [0, 2, 4 :: real] \<noteq> 0" by simp_all
  have l_all: "\<forall>i < length [0, 0, 1 :: real].
      [0, 0, 1 :: real] ! i \<le> last [0, 0, 1 :: real] / last [0, 1, 1 :: real] * [0, 1, 1] ! i"
    by (auto simp: less_Suc_eq)
  have "(1::nat) < length [0, 0, 1 :: real]
      \<and> [0, 0, 1 :: real] ! 1 < last [0, 0, 1 :: real] / last [0, 1, 1 :: real] * [0, 1, 1] ! 1"
    by simp
  then have l_ex: "\<exists>i < length [0, 0, 1 :: real].
      [0, 0, 1 :: real] ! i < last [0, 0, 1 :: real] / last [0, 1, 1 :: real] * [0, 1, 1] ! i"
    by blast
  have r_all: "\<forall>i < length [0, 1, 1 :: real].
      last [0, 1, 1 :: real] / last [0, 0, 1 :: real] * [0, 0, 1] ! i \<le> [0, 1, 1 :: real] ! i"
    by (auto simp: less_Suc_eq)
  have "(1::nat) < length [0, 1, 1 :: real]
      \<and> last [0, 1, 1 :: real] / last [0, 0, 1 :: real] * [0, 0, 1] ! 1 < [0, 1, 1 :: real] ! 1"
    by simp
  then have r_ex: "\<exists>i < length [0, 1, 1 :: real].
      last [0, 1, 1 :: real] / last [0, 0, 1 :: real] * [0, 0, 1] ! i < [0, 1, 1 :: real] ! i"
    by blast
  have s_all: "\<forall>i < length [0, 1, 2 :: real].
      [0, 1, 2 :: real] ! i * last [0, 2, 4 :: real] = last [0, 1, 2 :: real] * [0, 2, 4] ! i"
    by (auto simp: less_Suc_eq)
  have mp: "mirror_path [0, 0, 1] [0, 1, 1] = [(0, 0), (1, 0), (1, 1)]"
    by (simp add: mirror_path_def mirror_point_def)
  from max_deviation_sign_convention [OF l] l_all l_ex
    max_deviation_sign_convention [OF r] r_all r_ex
    max_deviation_sign_convention [OF s] s_all mp
  show ?thesis by blast
qed

end
